theory Spec2Isabelle
  imports Main "HOL-Library.Word"
begin

unbundle bit_operations_syntax

section \<open>Data model\<close>

text \<open>
  Go's fixed-width integers are machine words. A signed type and the unsigned type of the
  same width share their bit patterns: the conversions \<open>uint16(i)\<close> and \<open>int16(u)\<close> keep
  every bit, and only the reading differs (\<open>sint\<close> for the signed types, \<open>unat\<close> or
  \<open>uint\<close> for the unsigned ones). The native \<open>int\<close> and \<open>uint\<close> are taken at 64 bits, their
  width on the 64-bit targets. A \<open>float32\<close> or \<open>float64\<close> is carried as its IEEE-754 bit
  pattern, so that \<open>math.Float32bits\<close> and \<open>math.Float32frombits\<close> are the identity. A Go
  \<open>string\<close> is its byte sequence.
\<close>

type_synonym byte = "8 word"
type_synonym bytes = "byte list"

type_synonym int8 = "8 word"
type_synonym uint8 = "8 word"
type_synonym int16 = "16 word"
type_synonym uint16 = "16 word"
type_synonym int32 = "32 word"
type_synonym uint32 = "32 word"
type_synonym int64 = "64 word"
type_synonym uint64 = "64 word"
type_synonym go_int = "64 word"
type_synonym go_uint = "64 word"
type_synonym float32 = "32 word"
type_synonym float64 = "64 word"
type_synonym go_string = "byte list"

text \<open>Run-time panics of the Go runtime that the package can raise.\<close>

datatype panic = IndexOutOfRange | SliceBoundsOutOfRange

section \<open>The little-endian byte order of \<open>encoding/binary\<close>\<close>

text \<open>
  \<open>binary.LittleEndian.PutUint16(b, v)\<close> stores \<open>byte(v)\<close> and \<open>byte(v >> 8)\<close> into
  \<open>b[0]\<close> and \<open>b[1]\<close>, and likewise for 32 and 64 bits. The package calls them only on a
  buffer it has just made at the exact width, so the library's bounds check cannot fire
  there and the stores are list updates.
\<close>

definition PutUint16 :: "bytes \<Rightarrow> uint16 \<Rightarrow> bytes" where
  "PutUint16 b v = (b[0 := ucast v])[1 := ucast (drop_bit 8 v)]"

definition PutUint32 :: "bytes \<Rightarrow> uint32 \<Rightarrow> bytes" where
  "PutUint32 b v =
     (((b[0 := ucast v])[1 := ucast (drop_bit 8 v)])[2 := ucast (drop_bit 16 v)])
        [3 := ucast (drop_bit 24 v)]"

definition PutUint64 :: "bytes \<Rightarrow> uint64 \<Rightarrow> bytes" where
  "PutUint64 b v =
     (((((((b[0 := ucast v])[1 := ucast (drop_bit 8 v)])[2 := ucast (drop_bit 16 v)])
        [3 := ucast (drop_bit 24 v)])[4 := ucast (drop_bit 32 v)])
        [5 := ucast (drop_bit 40 v)])[6 := ucast (drop_bit 48 v)])
        [7 := ucast (drop_bit 56 v)]"

text \<open>
  \<open>binary.LittleEndian.Uint16(b)\<close> first touches \<open>b[1]\<close>, which panics on a buffer
  shorter than two bytes, and then returns \<open>uint16(b[0]) | uint16(b[1])<<8\<close>. The value
  read from a buffer that is long enough is \<open>le_uint16\<close>.
\<close>

definition le_uint16 :: "bytes \<Rightarrow> uint16" where
  "le_uint16 b = ucast (b ! 0) OR push_bit 8 (ucast (b ! 1))"

definition le_uint32 :: "bytes \<Rightarrow> uint32" where
  "le_uint32 b =
     ucast (b ! 0) OR push_bit 8 (ucast (b ! 1)) OR push_bit 16 (ucast (b ! 2))
       OR push_bit 24 (ucast (b ! 3))"

definition le_uint64 :: "bytes \<Rightarrow> uint64" where
  "le_uint64 b =
     ucast (b ! 0) OR push_bit 8 (ucast (b ! 1)) OR push_bit 16 (ucast (b ! 2))
       OR push_bit 24 (ucast (b ! 3)) OR push_bit 32 (ucast (b ! 4))
       OR push_bit 40 (ucast (b ! 5)) OR push_bit 48 (ucast (b ! 6))
       OR push_bit 56 (ucast (b ! 7))"

definition Uint16 :: "bytes \<Rightarrow> panic + uint16" where
  "Uint16 b = (if length b < 2 then Inl IndexOutOfRange else Inr (le_uint16 b))"

definition Uint32 :: "bytes \<Rightarrow> panic + uint32" where
  "Uint32 b = (if length b < 4 then Inl IndexOutOfRange else Inr (le_uint32 b))"

definition Uint64 :: "bytes \<Rightarrow> panic + uint64" where
  "Uint64 b = (if length b < 8 then Inl IndexOutOfRange else Inr (le_uint64 b))"

section \<open>Fixed-width encoders\<close>

definition LeEncodeString :: "go_string \<Rightarrow> bytes" where
  "LeEncodeString s = s"

definition LeEncodeBool :: "bool \<Rightarrow> bytes" where
  "LeEncodeBool b = (if b then [1] else [0])"

definition LeEncodeInt8 :: "int8 \<Rightarrow> bytes" where
  "LeEncodeInt8 i = [i]"

definition LeEncodeUint8 :: "uint8 \<Rightarrow> bytes" where
  "LeEncodeUint8 i = [i]"

definition LeEncodeInt16 :: "int16 \<Rightarrow> bytes" where
  "LeEncodeInt16 i = PutUint16 (replicate 2 0) i"

definition LeEncodeUint16 :: "uint16 \<Rightarrow> bytes" where
  "LeEncodeUint16 i = PutUint16 (replicate 2 0) i"

definition LeEncodeInt32 :: "int32 \<Rightarrow> bytes" where
  "LeEncodeInt32 i = PutUint32 (replicate 4 0) i"

definition LeEncodeUint32 :: "uint32 \<Rightarrow> bytes" where
  "LeEncodeUint32 i = PutUint32 (replicate 4 0) i"

definition LeEncodeInt64 :: "int64 \<Rightarrow> bytes" where
  "LeEncodeInt64 i = PutUint64 (replicate 8 0) i"

definition LeEncodeUint64 :: "uint64 \<Rightarrow> bytes" where
  "LeEncodeUint64 i = PutUint64 (replicate 8 0) i"

definition LeEncodeFloat32 :: "float32 \<Rightarrow> bytes" where
  "LeEncodeFloat32 f = PutUint32 (replicate 4 0) f"

definition LeEncodeFloat64 :: "float64 \<Rightarrow> bytes" where
  "LeEncodeFloat64 f = PutUint64 (replicate 8 0) f"

section \<open>The adaptive integer sizer\<close>

text \<open>
  \<open>LeEncodeInt\<close> compares the signed value with \<open>math.MaxInt8\<close>, \<open>math.MaxInt16\<close> and
  \<open>math.MaxInt32\<close> only, and converts with \<open>int8(i)\<close>, \<open>int16(i)\<close>, \<open>int32(i)\<close>, which keep
  the low bits. \<open>LeEncodeUint\<close> does the same on the unsigned reading.
\<close>

definition LeEncodeInt :: "go_int \<Rightarrow> bytes" where
  "LeEncodeInt i =
     (if sint i \<le> 127 then LeEncodeInt8 (ucast i)
      else if sint i \<le> 32767 then LeEncodeInt16 (ucast i)
      else if sint i \<le> 2147483647 then LeEncodeInt32 (ucast i)
      else LeEncodeInt64 i)"

definition LeEncodeUint :: "go_uint \<Rightarrow> bytes" where
  "LeEncodeUint i =
     (if uint i \<le> 255 then LeEncodeUint8 (ucast i)
      else if uint i \<le> 65535 then LeEncodeUint16 (ucast i)
      else if uint i \<le> 4294967295 then LeEncodeUint32 (ucast i)
      else LeEncodeUint64 i)"

section \<open>Single-value decoders\<close>

text \<open>
  \<open>LeFillUpSize(b, l)\<close> returns \<open>b[:l]\<close> when \<open>len(b) >= l\<close>, which panics for a negative
  \<open>l\<close>; otherwise it makes \<open>l\<close> zero bytes and copies \<open>b\<close> over their start.
\<close>

definition copy_bytes :: "bytes \<Rightarrow> bytes \<Rightarrow> bytes" where
  "copy_bytes dst src =
     take (min (length dst) (length src)) src @ drop (min (length dst) (length src)) dst"

definition LeFillUpSize :: "bytes \<Rightarrow> int \<Rightarrow> panic + bytes" where
  "LeFillUpSize b l =
     (if int (length b) \<ge> l then
        (if l < 0 then Inl SliceBoundsOutOfRange else Inr (take (nat l) b))
      else Inr (copy_bytes (replicate (nat l) 0) b))"

definition LeDecodeToString :: "bytes \<Rightarrow> go_string" where
  "LeDecodeToString b = b"

definition LeDecodeToBool :: "bytes \<Rightarrow> bool" where
  "LeDecodeToBool b = (length b > 0 \<and> b ! 0 \<noteq> 0)"

definition LeDecodeToInt8 :: "bytes \<Rightarrow> panic + int8" where
  "LeDecodeToInt8 b = (if length b \<le> 0 then Inl IndexOutOfRange else Inr (b ! 0))"

definition LeDecodeToUint8 :: "bytes \<Rightarrow> panic + uint8" where
  "LeDecodeToUint8 b = (if length b \<le> 0 then Inl IndexOutOfRange else Inr (b ! 0))"

definition LeDecodeToUint16 :: "bytes \<Rightarrow> panic + uint16" where
  "LeDecodeToUint16 b = (case LeFillUpSize b 2 of Inl p \<Rightarrow> Inl p | Inr c \<Rightarrow> Uint16 c)"

definition LeDecodeToInt16 :: "bytes \<Rightarrow> panic + int16" where
  "LeDecodeToInt16 b = (case LeFillUpSize b 2 of Inl p \<Rightarrow> Inl p | Inr c \<Rightarrow> Uint16 c)"

definition LeDecodeToUint32 :: "bytes \<Rightarrow> panic + uint32" where
  "LeDecodeToUint32 b = (case LeFillUpSize b 4 of Inl p \<Rightarrow> Inl p | Inr c \<Rightarrow> Uint32 c)"

definition LeDecodeToInt32 :: "bytes \<Rightarrow> panic + int32" where
  "LeDecodeToInt32 b = (case LeFillUpSize b 4 of Inl p \<Rightarrow> Inl p | Inr c \<Rightarrow> Uint32 c)"

definition LeDecodeToUint64 :: "bytes \<Rightarrow> panic + uint64" where
  "LeDecodeToUint64 b = (case LeFillUpSize b 8 of Inl p \<Rightarrow> Inl p | Inr c \<Rightarrow> Uint64 c)"

definition LeDecodeToInt64 :: "bytes \<Rightarrow> panic + int64" where
  "LeDecodeToInt64 b = (case LeFillUpSize b 8 of Inl p \<Rightarrow> Inl p | Inr c \<Rightarrow> Uint64 c)"

definition LeDecodeToFloat32 :: "bytes \<Rightarrow> panic + float32" where
  "LeDecodeToFloat32 b = (case LeFillUpSize b 4 of Inl p \<Rightarrow> Inl p | Inr c \<Rightarrow> Uint32 c)"

definition LeDecodeToFloat64 :: "bytes \<Rightarrow> panic + float64" where
  "LeDecodeToFloat64 b = (case LeFillUpSize b 8 of Inl p \<Rightarrow> Inl p | Inr c \<Rightarrow> Uint64 c)"

definition LeDecodeToInt :: "bytes \<Rightarrow> panic + go_int" where
  "LeDecodeToInt b = (case LeDecodeToInt64 b of Inl p \<Rightarrow> Inl p | Inr v \<Rightarrow> Inr (ucast v))"

definition LeDecodeToUint :: "bytes \<Rightarrow> panic + go_uint" where
  "LeDecodeToUint b = (case LeDecodeToUint64 b of Inl p \<Rightarrow> Inl p | Inr v \<Rightarrow> Inr (ucast v))"

section \<open>The encoder\<close>

text \<open>
  An element of the variadic \<open>values\<close> is an interface value: \<open>None\<close> is the untyped
  \<open>nil\<close>, \<open>Some v\<close> a value with its dynamic type. A value of a type the switch does not
  list goes to \<open>binary.Write\<close> of the standard library, which either appends a structural
  encoding to the buffer or returns an error and appends nothing; such a value carries
  that outcome (\<open>None\<close> for the error) and its \<open>%v\<close> rendering. The diagnostic logged
  on the error path leaves the returned bytes unchanged.
\<close>

datatype val =
    VInt go_int
  | VInt8 int8
  | VInt16 int16
  | VInt32 int32
  | VInt64 int64
  | VUint go_uint
  | VUint8 uint8
  | VUint16 uint16
  | VUint32 uint32
  | VUint64 uint64
  | VBool bool
  | VString go_string
  | VBytes bytes
  | VFloat32 float32
  | VFloat64 float64
  | VOther "bytes option" go_string

text \<open>The bytes one pass of the type switch appends to the buffer.\<close>

fun encode_switch :: "val \<Rightarrow> bytes" where
  "encode_switch (VInt v) = LeEncodeInt v"
| "encode_switch (VInt8 v) = LeEncodeInt8 v"
| "encode_switch (VInt16 v) = LeEncodeInt16 v"
| "encode_switch (VInt32 v) = LeEncodeInt32 v"
| "encode_switch (VInt64 v) = LeEncodeInt64 v"
| "encode_switch (VUint v) = LeEncodeUint v"
| "encode_switch (VUint8 v) = LeEncodeUint8 v"
| "encode_switch (VUint16 v) = LeEncodeUint16 v"
| "encode_switch (VUint32 v) = LeEncodeUint32 v"
| "encode_switch (VUint64 v) = LeEncodeUint64 v"
| "encode_switch (VBool v) = LeEncodeBool v"
| "encode_switch (VString v) = LeEncodeString v"
| "encode_switch (VBytes v) = v"
| "encode_switch (VFloat32 v) = LeEncodeFloat32 v"
| "encode_switch (VFloat64 v) = LeEncodeFloat64 v"
| "encode_switch (VOther w rendering) =
     (case w of Some bs \<Rightarrow> bs | None \<Rightarrow> LeEncodeString rendering)"

fun LeEncode_loop :: "bytes \<Rightarrow> val option list \<Rightarrow> bytes" where
  "LeEncode_loop buf [] = buf"
| "LeEncode_loop buf (None # values) = buf"
| "LeEncode_loop buf (Some v # values) = LeEncode_loop (buf @ encode_switch v) values"

definition LeEncode :: "val option list \<Rightarrow> bytes" where
  "LeEncode values = LeEncode_loop [] values"

text \<open>
  \<open>LeEncodeByLength\<close> appends \<open>length - len(b)\<close> zero bytes when the encoding is shorter
  and returns \<open>b[:length]\<close> when it is longer, which panics for a negative \<open>length\<close>.
\<close>

definition LeEncodeByLength :: "int \<Rightarrow> val option list \<Rightarrow> panic + bytes" where
  "LeEncodeByLength len values =
     (let b = LeEncode values in
      if int (length b) < len then Inr (b @ replicate (nat (len - int (length b))) 0)
      else if int (length b) > len then
        (if len < 0 then Inl SliceBoundsOutOfRange else Inr (take (nat len) b))
      else Inr b)"

section \<open>The strict multi-slot decoder\<close>

text \<open>
  A destination of \<open>LeDecode\<close> is a pointer to a fixed-size scalar, here the variable it
  points to with its current content. \<open>binary.Read\<close> of the standard library takes the
  slot's size \<open>n\<close>, reads exactly \<open>n\<close> bytes with \<open>io.ReadFull\<close> (\<open>io.EOF\<close> when nothing is
  left, \<open>io.ErrUnexpectedEOF\<close> when fewer than \<open>n\<close> bytes are) and only then stores the
  little-endian value through the pointer. \<open>LeDecode\<close> wraps the error with the text
  \<open>binary.Read failed\<close> and returns at once. Slices and structs, which \<open>binary.Read\<close> also
  fills, are not among the destinations modelled.
\<close>

datatype slot =
    PBool bool
  | PInt8 int8
  | PUint8 uint8
  | PInt16 int16
  | PUint16 uint16
  | PInt32 int32
  | PUint32 uint32
  | PInt64 int64
  | PUint64 uint64
  | PFloat32 float32
  | PFloat64 float64

datatype io_error = EOF | ErrUnexpectedEOF

datatype wrapped_error = Wrap io_error string

fun slot_size :: "slot \<Rightarrow> nat" where
  "slot_size (PBool _) = 1"
| "slot_size (PInt8 _) = 1"
| "slot_size (PUint8 _) = 1"
| "slot_size (PInt16 _) = 2"
| "slot_size (PUint16 _) = 2"
| "slot_size (PInt32 _) = 4"
| "slot_size (PUint32 _) = 4"
| "slot_size (PInt64 _) = 8"
| "slot_size (PUint64 _) = 8"
| "slot_size (PFloat32 _) = 4"
| "slot_size (PFloat64 _) = 8"

fun decode_slot :: "bytes \<Rightarrow> slot \<Rightarrow> slot" where
  "decode_slot bs (PBool _) = PBool (bs ! 0 \<noteq> 0)"
| "decode_slot bs (PInt8 _) = PInt8 (bs ! 0)"
| "decode_slot bs (PUint8 _) = PUint8 (bs ! 0)"
| "decode_slot bs (PInt16 _) = PInt16 (le_uint16 bs)"
| "decode_slot bs (PUint16 _) = PUint16 (le_uint16 bs)"
| "decode_slot bs (PInt32 _) = PInt32 (le_uint32 bs)"
| "decode_slot bs (PUint32 _) = PUint32 (le_uint32 bs)"
| "decode_slot bs (PInt64 _) = PInt64 (le_uint64 bs)"
| "decode_slot bs (PUint64 _) = PUint64 (le_uint64 bs)"
| "decode_slot bs (PFloat32 _) = PFloat32 (le_uint32 bs)"
| "decode_slot bs (PFloat64 _) = PFloat64 (le_uint64 bs)"

definition binary_Read :: "bytes \<Rightarrow> slot \<Rightarrow> io_error + (bytes \<times> slot)" where
  "binary_Read buf s =
     (let n = slot_size s in
      if length buf < n then Inl (if buf = [] then EOF else ErrUnexpectedEOF)
      else Inr (drop n buf, decode_slot (take n buf) s))"

text \<open>
  The result pairs the returned error (\<open>None\<close> for \<open>nil\<close>) with the destinations as the
  call leaves them.
\<close>

fun LeDecode_loop :: "bytes \<Rightarrow> slot list \<Rightarrow> wrapped_error option \<times> slot list" where
  "LeDecode_loop buf [] = (None, [])"
| "LeDecode_loop buf (s # values) =
     (case binary_Read buf s of
        Inl err \<Rightarrow> (Some (Wrap err ''binary.Read failed''), s # values)
      | Inr (buf', s') \<Rightarrow>
          (case LeDecode_loop buf' values of (r, values') \<Rightarrow> (r, s' # values')))"

definition LeDecode :: "bytes \<Rightarrow> slot list \<Rightarrow> wrapped_error option \<times> slot list" where
  "LeDecode b values = LeDecode_loop b values"

section \<open>The RS hash\<close>

fun RS_loop :: "uint32 \<Rightarrow> uint32 \<Rightarrow> bytes \<Rightarrow> uint32" where
  "RS_loop a hash [] = hash"
| "RS_loop a hash (c # str) = RS_loop (a * 378551) (hash * a + ucast c) str"

definition RS :: "bytes \<Rightarrow> uint32" where
  "RS str = RS_loop 63689 0 str"

fun RS64_loop :: "uint64 \<Rightarrow> uint64 \<Rightarrow> bytes \<Rightarrow> uint64" where
  "RS64_loop a hash [] = hash"
| "RS64_loop a hash (c # str) = RS64_loop (a * 378551) (hash * a + ucast c) str"

definition RS64 :: "bytes \<Rightarrow> uint64" where
  "RS64 str = RS64_loop 63689 0 str"

section \<open>Little-endian bytes of a word\<close>

lemma replicate_2: "replicate 2 x = [x, x]"
  by (simp add: numeral_2_eq_2)

lemma replicate_4: "replicate 4 x = [x, x, x, x]"
  by (simp add: numeral_eq_Suc)

lemma replicate_8: "replicate 8 x = [x, x, x, x, x, x, x, x]"
  by (simp add: numeral_eq_Suc)

lemma upd_numeral: "(x # xs)[numeral k := y] = x # xs[pred_numeral k := y]"
  by (simp add: numeral_eq_Suc)

lemma nth_numeral: "(x # xs) ! numeral k = xs ! pred_numeral k"
  by (simp add: numeral_eq_Suc)

lemma PutUint16_bytes: "PutUint16 (replicate 2 0) v = [ucast v, ucast (drop_bit 8 v)]"
  by (simp add: PutUint16_def replicate_2 upd_numeral)

lemma PutUint32_bytes:
  "PutUint32 (replicate 4 0) v =
     [ucast v, ucast (drop_bit 8 v), ucast (drop_bit 16 v), ucast (drop_bit 24 v)]"
  by (simp add: PutUint32_def replicate_4 upd_numeral)

lemma PutUint64_bytes:
  "PutUint64 (replicate 8 0) v =
     [ucast v, ucast (drop_bit 8 v), ucast (drop_bit 16 v), ucast (drop_bit 24 v),
      ucast (drop_bit 32 v), ucast (drop_bit 40 v), ucast (drop_bit 48 v),
      ucast (drop_bit 56 v)]"
  by (simp add: PutUint64_def replicate_8 upd_numeral)

text \<open>
  Bit \<open>n\<close> of the byte taken at offset \<open>k\<close> and shifted back to offset \<open>k\<close> is bit \<open>n\<close> of the
  word when \<open>n\<close> lies in the byte's range, and clear otherwise.
\<close>

lemma bit_byte_at:
  fixes v :: "'a::len word"
  shows "bit (push_bit k (ucast (ucast (drop_bit k v) :: 8 word)) :: 'a word) n
     \<longleftrightarrow> k \<le> n \<and> n < k + 8 \<and> bit v n"
  by (auto simp: bit_simps dest: bit_imp_le_length)

lemma bit_byte_0:
  fixes v :: "'a::len word"
  shows "bit (ucast (ucast v :: 8 word) :: 'a word) n \<longleftrightarrow> n < 8 \<and> bit v n"
  by (auto simp: bit_simps dest: bit_imp_le_length)

lemmas nth_bytes = nth_Cons_0 nth_numeral pred_numeral_simps nth_Cons_Suc One_nat_def
  Num.BitM.simps

lemma le_uint16_PutUint16: "le_uint16 (PutUint16 (replicate 2 0) v) = v"
proof (rule bit_word_eqI)
  fix n
  assume "n < LENGTH(16)"
  then have "n < 8 \<or> (8 \<le> n \<and> n < 8 + 8)"
    by auto
  then show "bit (le_uint16 (PutUint16 (replicate 2 0) v)) n = bit v n"
    unfolding le_uint16_def PutUint16_bytes
    by (simp only: nth_bytes bit_or_iff bit_byte_at bit_byte_0) blast
qed

lemma le_uint32_PutUint32: "le_uint32 (PutUint32 (replicate 4 0) v) = v"
proof (rule bit_word_eqI)
  fix n
  assume "n < LENGTH(32)"
  then have "n < 8 \<or> (8 \<le> n \<and> n < 8 + 8) \<or> (16 \<le> n \<and> n < 16 + 8) \<or>
      (24 \<le> n \<and> n < 24 + 8)"
    by auto
  then show "bit (le_uint32 (PutUint32 (replicate 4 0) v)) n = bit v n"
    unfolding le_uint32_def PutUint32_bytes
    by (simp only: nth_bytes bit_or_iff bit_byte_at bit_byte_0) blast
qed

lemma le_uint64_PutUint64: "le_uint64 (PutUint64 (replicate 8 0) v) = v"
proof (rule bit_word_eqI)
  fix n
  assume "n < LENGTH(64)"
  then have "n < 8 \<or> (8 \<le> n \<and> n < 8 + 8) \<or> (16 \<le> n \<and> n < 16 + 8) \<or>
      (24 \<le> n \<and> n < 24 + 8) \<or> (32 \<le> n \<and> n < 32 + 8) \<or> (40 \<le> n \<and> n < 40 + 8) \<or>
      (48 \<le> n \<and> n < 48 + 8) \<or> (56 \<le> n \<and> n < 56 + 8)"
    by auto
  then show "bit (le_uint64 (PutUint64 (replicate 8 0) v)) n = bit v n"
    unfolding le_uint64_def PutUint64_bytes
    by (simp only: nth_bytes bit_or_iff bit_byte_at bit_byte_0) blast
qed

section \<open>Padding and truncation in the lenient decoders\<close>

lemma copy_bytes_zero:
  "length src \<le> n \<Longrightarrow> copy_bytes (replicate n 0) src = src @ replicate (n - length src) 0"
  by (simp add: copy_bytes_def min_def)

lemma LeFillUpSize_pad_truncate:
  "LeFillUpSize b (int n) = Inr (take n (b @ replicate (n - length b) 0))"
  by (simp add: LeFillUpSize_def copy_bytes_zero)

lemma LeFillUpSize_2: "LeFillUpSize b 2 = Inr (take 2 (b @ replicate (2 - length b) 0))"
  using LeFillUpSize_pad_truncate [of b 2] by simp

lemma LeFillUpSize_4: "LeFillUpSize b 4 = Inr (take 4 (b @ replicate (4 - length b) 0))"
  using LeFillUpSize_pad_truncate [of b 4] by simp

lemma LeFillUpSize_8: "LeFillUpSize b 8 = Inr (take 8 (b @ replicate (8 - length b) 0))"
  using LeFillUpSize_pad_truncate [of b 8] by simp

lemma length_fill: "length (take n (b @ replicate (n - length b) x)) = n"
  by simp

lemma Uint16_fill:
  "Uint16 (take 2 (b @ replicate (2 - length b) 0)) = Inr (le_uint16 (take 2 (b @ replicate (2 - length b) 0)))"
  unfolding Uint16_def by (simp only: length_fill) simp

lemma Uint32_fill:
  "Uint32 (take 4 (b @ replicate (4 - length b) 0)) = Inr (le_uint32 (take 4 (b @ replicate (4 - length b) 0)))"
  unfolding Uint32_def by (simp only: length_fill) simp

lemma Uint64_fill:
  "Uint64 (take 8 (b @ replicate (8 - length b) 0)) = Inr (le_uint64 (take 8 (b @ replicate (8 - length b) 0)))"
  unfolding Uint64_def by (simp only: length_fill) simp

lemma LeDecodeToUint16_eq:
  "LeDecodeToUint16 b = Inr (le_uint16 (take 2 (b @ replicate (2 - length b) 0)))"
  unfolding LeDecodeToUint16_def LeFillUpSize_2 by (simp only: sum.case Uint16_fill)

lemma LeDecodeToInt16_eq:
  "LeDecodeToInt16 b = Inr (le_uint16 (take 2 (b @ replicate (2 - length b) 0)))"
  unfolding LeDecodeToInt16_def LeFillUpSize_2 by (simp only: sum.case Uint16_fill)

lemma LeDecodeToUint32_eq:
  "LeDecodeToUint32 b = Inr (le_uint32 (take 4 (b @ replicate (4 - length b) 0)))"
  unfolding LeDecodeToUint32_def LeFillUpSize_4 by (simp only: sum.case Uint32_fill)

lemma LeDecodeToInt32_eq:
  "LeDecodeToInt32 b = Inr (le_uint32 (take 4 (b @ replicate (4 - length b) 0)))"
  unfolding LeDecodeToInt32_def LeFillUpSize_4 by (simp only: sum.case Uint32_fill)

lemma LeDecodeToFloat32_eq:
  "LeDecodeToFloat32 b = Inr (le_uint32 (take 4 (b @ replicate (4 - length b) 0)))"
  unfolding LeDecodeToFloat32_def LeFillUpSize_4 by (simp only: sum.case Uint32_fill)

lemma LeDecodeToUint64_eq:
  "LeDecodeToUint64 b = Inr (le_uint64 (take 8 (b @ replicate (8 - length b) 0)))"
  unfolding LeDecodeToUint64_def LeFillUpSize_8 by (simp only: sum.case Uint64_fill)

lemma LeDecodeToInt64_eq:
  "LeDecodeToInt64 b = Inr (le_uint64 (take 8 (b @ replicate (8 - length b) 0)))"
  unfolding LeDecodeToInt64_def LeFillUpSize_8 by (simp only: sum.case Uint64_fill)

lemma LeDecodeToFloat64_eq:
  "LeDecodeToFloat64 b = Inr (le_uint64 (take 8 (b @ replicate (8 - length b) 0)))"
  unfolding LeDecodeToFloat64_def LeFillUpSize_8 by (simp only: sum.case Uint64_fill)

lemma LeDecodeToInt_eq:
  "LeDecodeToInt b = Inr (le_uint64 (take 8 (b @ replicate (8 - length b) 0)))"
  unfolding LeDecodeToInt_def LeDecodeToInt64_eq by (simp only: sum.case ucast_id)

lemma LeDecodeToUint_eq:
  "LeDecodeToUint b = Inr (le_uint64 (take 8 (b @ replicate (8 - length b) 0)))"
  unfolding LeDecodeToUint_def LeDecodeToUint64_eq by (simp only: sum.case ucast_id)

lemma fill_exact:
  "length b = n \<Longrightarrow> take n (b @ replicate (n - length b) x) = b"
  by simp

lemma length_PutUint16: "length (PutUint16 b v) = length b"
  by (simp add: PutUint16_def)

lemma length_PutUint32: "length (PutUint32 b v) = length b"
  by (simp add: PutUint32_def)

lemma length_PutUint64: "length (PutUint64 b v) = length b"
  by (simp add: PutUint64_def)

section \<open>Round trip of the fixed-width integers\<close>

text \<open>
  C7. For each of int8, uint8, int16, uint16, int32, uint32, int64 and uint64 and every
  value of the type, the decoder of that type applied to the encoder's bytes returns
  without panic and gives the value back.
\<close>

theorem fixed_width_round_trip:
  "LeDecodeToInt8 (LeEncodeInt8 i8) = Inr i8 \<and>
   LeDecodeToUint8 (LeEncodeUint8 u8) = Inr u8 \<and>
   LeDecodeToInt16 (LeEncodeInt16 i16) = Inr i16 \<and>
   LeDecodeToUint16 (LeEncodeUint16 u16) = Inr u16 \<and>
   LeDecodeToInt32 (LeEncodeInt32 i32) = Inr i32 \<and>
   LeDecodeToUint32 (LeEncodeUint32 u32) = Inr u32 \<and>
   LeDecodeToInt64 (LeEncodeInt64 i64) = Inr i64 \<and>
   LeDecodeToUint64 (LeEncodeUint64 u64) = Inr u64"
proof -
  have e8: "LeDecodeToInt8 (LeEncodeInt8 i8) = Inr i8" "LeDecodeToUint8 (LeEncodeUint8 u8) = Inr u8"
    by (simp_all add: LeDecodeToInt8_def LeEncodeInt8_def LeDecodeToUint8_def LeEncodeUint8_def)
  have e16: "LeDecodeToInt16 (LeEncodeInt16 i16) = Inr i16" "LeDecodeToUint16 (LeEncodeUint16 u16) = Inr u16"
    by (simp_all add: LeDecodeToInt16_eq LeDecodeToUint16_eq LeEncodeInt16_def LeEncodeUint16_def
        fill_exact length_PutUint16 le_uint16_PutUint16)
  have e32: "LeDecodeToInt32 (LeEncodeInt32 i32) = Inr i32" "LeDecodeToUint32 (LeEncodeUint32 u32) = Inr u32"
    by (simp_all add: LeDecodeToInt32_eq LeDecodeToUint32_eq LeEncodeInt32_def LeEncodeUint32_def
        fill_exact length_PutUint32 le_uint32_PutUint32)
  have e64: "LeDecodeToInt64 (LeEncodeInt64 i64) = Inr i64" "LeDecodeToUint64 (LeEncodeUint64 u64) = Inr u64"
    by (simp_all add: LeDecodeToInt64_eq LeDecodeToUint64_eq LeEncodeInt64_def LeEncodeUint64_def
        fill_exact length_PutUint64 le_uint64_PutUint64)
  from e8 e16 e32 e64 show ?thesis by blast
qed

section \<open>The two RS hashes\<close>

lemma word_of_int_uint_down:
  fixes w :: "64 word"
  shows "(word_of_int (uint w) :: 32 word) = ucast w"
  by (simp only: ucast_eq)

lemma take_bit_32_64: "take_bit 32 (take_bit 64 (k::int)) = take_bit 32 k"
  by (simp add: take_bit_take_bit)

lemma word32_of_take_bit_64: "(word_of_int (take_bit 64 k) :: 32 word) = word_of_int k"
proof -
  have "take_bit LENGTH(32) (take_bit 64 k) = take_bit LENGTH(32) k"
    using take_bit_32_64 [of k] by simp
  then show ?thesis by (simp only: word_of_int_eq_iff)
qed

lemma ucast_64_32_mult: "(ucast (x * y :: 64 word) :: 32 word) = ucast x * ucast y"
proof -
  have "uint (x * y) = take_bit 64 (uint x * uint y)"
    using uint_word_arith_bintrs(3) [of x y] by simp
  then have "(ucast (x * y) :: 32 word) = word_of_int (uint x * uint y)"
    by (simp only: ucast_eq word32_of_take_bit_64)
  also have "\<dots> = word_of_int (uint x) * word_of_int (uint y)"
    by (simp only: word_of_int_hom_syms) 
  finally show ?thesis by (simp only: ucast_eq)
qed

lemma ucast_64_32_add: "(ucast (x + y :: 64 word) :: 32 word) = ucast x + ucast y"
proof -
  have "uint (x + y) = take_bit 64 (uint x + uint y)"
    using uint_word_arith_bintrs(1) [of x y] by simp
  then have "(ucast (x + y) :: 32 word) = word_of_int (uint x + uint y)"
    by (simp only: ucast_eq word32_of_take_bit_64)
  also have "\<dots> = word_of_int (uint x) + word_of_int (uint y)"
    by (simp only: word_of_int_hom_syms) 
  finally show ?thesis by (simp only: ucast_eq)
qed

lemma ucast_8_64_32: "(ucast (ucast (c :: 8 word) :: 64 word) :: 32 word) = ucast c"
  by (rule bit_word_eqI) (auto simp: bit_simps dest: bit_imp_le_length)

lemma ucast_64_32_consts:
  "(ucast (378551 :: 64 word) :: 32 word) = 378551"
  "(ucast (63689 :: 64 word) :: 32 word) = 63689"
  by simp_all

lemma RS_loop_truncates:
  "ucast (RS64_loop a h str) = RS_loop (ucast a) (ucast h) str"
proof (induction str arbitrary: a h)
  case Nil
  show ?case by simp
next
  case (Cons c str)
  have "RS_loop (ucast a) (ucast h) (c # str) = RS_loop (ucast (a * 378551)) (ucast (h * a + ucast c)) str"
    by (simp only: RS_loop.simps ucast_64_32_mult ucast_64_32_add ucast_8_64_32 ucast_64_32_consts)
  then show ?case by (simp only: RS64_loop.simps Cons.IH)
qed

text \<open>
  C10. For every byte input, the 32-bit RS hash is the low 32 bits of the 64-bit RS hash
  of the same input: as a word it is the truncation, and as a number it is the 64-bit
  hash modulo \<open>2 ^ 32\<close>.
\<close>

theorem RS_is_low_half_of_RS64:
  "RS str = ucast (RS64 str) \<and> uint (RS str) = uint (RS64 str) mod 2 ^ 32"
proof -
  have eq: "RS str = ucast (RS64 str)"
    unfolding RS_def RS64_def by (simp only: RS_loop_truncates ucast_64_32_consts ucast_0)
  have "uint (ucast (RS64 str) :: 32 word) = uint (RS64 str) mod 2 ^ 32"
    by (simp add: take_bit_eq_mod unsigned_ucast_eq)
  with eq show ?thesis by simp
qed

section \<open>Lenient decoding pads and truncates\<close>

lemma LeDecodeToUint16_one_byte: "LeDecodeToUint16 [5] = Inr 5"
  by (simp add: LeDecodeToUint16_eq le_uint16_def)

lemma LeDecodeToUint16_three_bytes: "LeDecodeToUint16 [5, 0, 255] = Inr 5"
  by (simp add: LeDecodeToUint16_eq le_uint16_def)

text \<open>
  \<open>LeFillUpSize\<close> returns the first \<open>n\<close> bytes of the buffer followed by enough zero
  bytes: a buffer shorter than \<open>n\<close> is padded on the right with zeros, and of a longer
  one only the first \<open>n\<close> bytes are kept. Every decoder of a 16, 32 or 64-bit value reads
  the little-endian value of the buffer so normalised; in particular
  \<open>LeDecodeToUint16([0x05])\<close> and \<open>LeDecodeToUint16([0x05, 0x00, 0xFF])\<close> are both 5.
\<close>

lemma multi_byte_decoders_pad_and_truncate:
  "LeFillUpSize b (int n) = Inr (take n (b @ replicate (n - length b) 0)) \<and>
   LeDecodeToInt16 b = Inr (le_uint16 (take 2 (b @ replicate (2 - length b) 0))) \<and>
   LeDecodeToUint16 b = Inr (le_uint16 (take 2 (b @ replicate (2 - length b) 0))) \<and>
   LeDecodeToInt32 b = Inr (le_uint32 (take 4 (b @ replicate (4 - length b) 0))) \<and>
   LeDecodeToUint32 b = Inr (le_uint32 (take 4 (b @ replicate (4 - length b) 0))) \<and>
   LeDecodeToInt64 b = Inr (le_uint64 (take 8 (b @ replicate (8 - length b) 0))) \<and>
   LeDecodeToUint64 b = Inr (le_uint64 (take 8 (b @ replicate (8 - length b) 0))) \<and>
   LeDecodeToFloat32 b = Inr (le_uint32 (take 4 (b @ replicate (4 - length b) 0))) \<and>
   LeDecodeToFloat64 b = Inr (le_uint64 (take 8 (b @ replicate (8 - length b) 0))) \<and>
   LeDecodeToInt b = Inr (le_uint64 (take 8 (b @ replicate (8 - length b) 0))) \<and>
   LeDecodeToUint b = Inr (le_uint64 (take 8 (b @ replicate (8 - length b) 0))) \<and>
   LeDecodeToUint16 [5] = Inr 5 \<and>
   LeDecodeToUint16 [5, 0, 255] = Inr 5"
proof (intro conjI)
  show "LeFillUpSize b (int n) = Inr (take n (b @ replicate (n - length b) 0))"
    by (rule LeFillUpSize_pad_truncate)
  show "LeDecodeToInt16 b = Inr (le_uint16 (take 2 (b @ replicate (2 - length b) 0)))"
    by (rule LeDecodeToInt16_eq)
  show "LeDecodeToUint16 b = Inr (le_uint16 (take 2 (b @ replicate (2 - length b) 0)))"
    by (rule LeDecodeToUint16_eq)
  show "LeDecodeToInt32 b = Inr (le_uint32 (take 4 (b @ replicate (4 - length b) 0)))"
    by (rule LeDecodeToInt32_eq)
  show "LeDecodeToUint32 b = Inr (le_uint32 (take 4 (b @ replicate (4 - length b) 0)))"
    by (rule LeDecodeToUint32_eq)
  show "LeDecodeToInt64 b = Inr (le_uint64 (take 8 (b @ replicate (8 - length b) 0)))"
    by (rule LeDecodeToInt64_eq)
  show "LeDecodeToUint64 b = Inr (le_uint64 (take 8 (b @ replicate (8 - length b) 0)))"
    by (rule LeDecodeToUint64_eq)
  show "LeDecodeToFloat32 b = Inr (le_uint32 (take 4 (b @ replicate (4 - length b) 0)))"
    by (rule LeDecodeToFloat32_eq)
  show "LeDecodeToFloat64 b = Inr (le_uint64 (take 8 (b @ replicate (8 - length b) 0)))"
    by (rule LeDecodeToFloat64_eq)
  show "LeDecodeToInt b = Inr (le_uint64 (take 8 (b @ replicate (8 - length b) 0)))"
    by (rule LeDecodeToInt_eq)
  show "LeDecodeToUint b = Inr (le_uint64 (take 8 (b @ replicate (8 - length b) 0)))"
    by (rule LeDecodeToUint_eq)
  show "LeDecodeToUint16 [5] = Inr 5"
    by (rule LeDecodeToUint16_one_byte)
  show "LeDecodeToUint16 [5, 0, 255] = Inr 5"
    by (rule LeDecodeToUint16_three_bytes)
qed

text \<open>
  The 8-bit decoders do not call \<open>LeFillUpSize\<close>. On a buffer that is not empty they
  return its first byte, whatever follows.
\<close>

lemma byte_decoders_first_byte:
  "LeDecodeToInt8 (x # rest) = Inr x \<and> LeDecodeToUint8 (x # rest) = Inr x"
  by (simp add: LeDecodeToInt8_def LeDecodeToUint8_def)

text \<open>
  C5. At the target width of one byte the empty buffer is the buffer shorter than the
  width. Padded on the right with zeros to that width it is \<open>[0x00]\<close>, which both 8-bit
  decoders read as 0; on the empty buffer itself they panic with an index out of range,
  so the short buffer is not treated as zero-padded there.
\<close>

theorem byte_decoders_do_not_pad:
  "LeFillUpSize [] 1 = Inr [0] \<and>
   LeDecodeToUint8 [0] = Inr 0 \<and> LeDecodeToInt8 [0] = Inr 0 \<and>
   LeDecodeToUint8 [] = Inl IndexOutOfRange \<and> LeDecodeToInt8 [] = Inl IndexOutOfRange"
  by (simp add: LeFillUpSize_def copy_bytes_def LeDecodeToInt8_def LeDecodeToUint8_def)

section \<open>The 8-bit decoders on the empty buffer\<close>

lemma multi_byte_decoders_never_panic:
  "(\<exists>v. LeDecodeToInt16 b = Inr v) \<and> (\<exists>v. LeDecodeToUint16 b = Inr v) \<and>
   (\<exists>v. LeDecodeToInt32 b = Inr v) \<and> (\<exists>v. LeDecodeToUint32 b = Inr v) \<and>
   (\<exists>v. LeDecodeToInt64 b = Inr v) \<and> (\<exists>v. LeDecodeToUint64 b = Inr v) \<and>
   (\<exists>v. LeDecodeToFloat32 b = Inr v) \<and> (\<exists>v. LeDecodeToFloat64 b = Inr v)"
  by (simp only: LeDecodeToInt16_eq LeDecodeToUint16_eq LeDecodeToInt32_eq LeDecodeToUint32_eq
      LeDecodeToInt64_eq LeDecodeToUint64_eq LeDecodeToFloat32_eq LeDecodeToFloat64_eq) blast

lemma LeDecodeToBool_empty: "LeDecodeToBool [] = False"
  by (simp add: LeDecodeToBool_def)

text \<open>
  C2. \<open>LeDecodeToInt8\<close> and \<open>LeDecodeToUint8\<close> index \<open>b[0]\<close> with no length check and no
  padding: on the empty buffer both panic with an index out of range, where the boolean
  decoder tests the length and the wider decoders pad.
\<close>

theorem LeDecodeToInt8_panics_on_empty:
  "LeDecodeToInt8 [] = Inl IndexOutOfRange \<and> LeDecodeToUint8 [] = Inl IndexOutOfRange"
  by (simp add: LeDecodeToInt8_def LeDecodeToUint8_def)

section \<open>The signed sizer\<close>

text \<open>
  From \<open>-128\<close> upwards the signed sizer picks the narrowest width that holds the value and
  the decoder of that width reads the value back. Below \<open>-128\<close> it still takes the 8-bit
  branch, and the byte it writes reads back as a larger number.
\<close>

lemma LeEncodeInt_below_int8:
  assumes "sint i < - 128"
  shows "length (LeEncodeInt i) = 1 \<and>
         (\<exists>v. LeDecodeToInt8 (LeEncodeInt i) = Inr v \<and> sint i < sint v)"
proof -
  from assms have enc: "LeEncodeInt i = [ucast i]"
    by (simp add: LeEncodeInt_def LeEncodeInt8_def)
  have "- 128 \<le> sint (ucast i :: int8)"
    using sint_ge [of "ucast i :: int8"] by simp
  with assms have "sint i < sint (ucast i :: int8)"
    by linarith
  with enc show ?thesis
    by (simp add: LeDecodeToInt8_def)
qed

lemma sint_ucast_narrow:
  fixes i :: "64 word"
  assumes "LENGTH('c::len) \<le> 64"
    and "- (2 ^ (LENGTH('c) - Suc 0)) \<le> sint i" and "sint i < 2 ^ (LENGTH('c) - Suc 0)"
  shows "sint (ucast i :: 'c word) = sint i"
proof -
  have m: "min (LENGTH('c) - Suc 0) (LENGTH(64) - Suc 0) = LENGTH('c) - Suc 0"
    using assms(1) by simp
  have "sint (ucast i :: 'c word) = signed_take_bit (LENGTH('c) - Suc 0) (uint i)"
    by (rule signed_ucast_eq)
  also have "\<dots> = signed_take_bit (min (LENGTH('c) - Suc 0) (LENGTH(64) - Suc 0)) (uint i)"
    by (simp only: m)
  also have "\<dots> = signed_take_bit (LENGTH('c) - Suc 0) (sint i)"
    by (simp only: sint_uint signed_take_bit_signed_take_bit)
  also have "\<dots> = sint i"
    using assms(2,3) by (rule signed_take_bit_int_eq_self)
  finally show ?thesis .
qed

lemma LeEncodeInt_in_int8:
  assumes "- 128 \<le> sint i" and "sint i \<le> 127"
  shows "length (LeEncodeInt i) = 1 \<and>
         (\<exists>v. LeDecodeToInt8 (LeEncodeInt i) = Inr v \<and> sint v = sint i)"
proof -
  have "sint (ucast i :: int8) = sint i"
    using assms by (intro sint_ucast_narrow) simp_all
  with assms show ?thesis
    by (simp add: LeEncodeInt_def LeEncodeInt8_def LeDecodeToInt8_def)
qed

lemma LeEncodeInt_in_int16:
  assumes "127 < sint i" and "sint i \<le> 32767"
  shows "length (LeEncodeInt i) = 2 \<and>
         (\<exists>v. LeDecodeToInt16 (LeEncodeInt i) = Inr v \<and> sint v = sint i)"
proof -
  have "sint (ucast i :: int16) = sint i"
    using assms by (intro sint_ucast_narrow) simp_all
  moreover from assms have "LeEncodeInt i = LeEncodeInt16 (ucast i)"
    by (simp add: LeEncodeInt_def)
  moreover have "length (LeEncodeInt16 (ucast i)) = 2"
    by (simp add: LeEncodeInt16_def length_PutUint16)
  ultimately show ?thesis
    by (simp add: LeDecodeToInt16_eq LeEncodeInt16_def fill_exact length_PutUint16 le_uint16_PutUint16)
qed

lemma LeEncodeInt_in_int32:
  assumes "32767 < sint i" and "sint i \<le> 2147483647"
  shows "length (LeEncodeInt i) = 4 \<and>
         (\<exists>v. LeDecodeToInt32 (LeEncodeInt i) = Inr v \<and> sint v = sint i)"
proof -
  have "sint (ucast i :: int32) = sint i"
    using assms by (intro sint_ucast_narrow) simp_all
  moreover from assms have "LeEncodeInt i = LeEncodeInt32 (ucast i)"
    by (simp add: LeEncodeInt_def)
  moreover have "length (LeEncodeInt32 (ucast i)) = 4"
    by (simp add: LeEncodeInt32_def length_PutUint32)
  ultimately show ?thesis
    by (simp add: LeDecodeToInt32_eq LeEncodeInt32_def fill_exact length_PutUint32
        le_uint32_PutUint32)
qed

lemma LeEncodeInt_above_int32:
  assumes "2147483647 < sint i"
  shows "length (LeEncodeInt i) = 8 \<and> LeDecodeToInt64 (LeEncodeInt i) = Inr i"
proof -
  from assms have "LeEncodeInt i = LeEncodeInt64 i"
    by (simp add: LeEncodeInt_def)
  moreover have "length (LeEncodeInt64 i) = 8"
    by (simp add: LeEncodeInt64_def length_PutUint64)
  ultimately show ?thesis
    by (simp add: LeDecodeToInt64_eq LeEncodeInt64_def fill_exact length_PutUint64
        le_uint64_PutUint64)
qed

text \<open>
  C1. At \<open>-129\<close> the signed sizer takes its first branch, since \<open>-129 \<le> 127\<close>, and emits
  the single byte \<open>0x7F\<close>, the low byte of the value; read back at 8 bits it is \<open>127\<close>.
\<close>

theorem LeEncodeInt_truncates_below_int8:
  "sint (- 129 :: go_int) = - 129 \<and>
   LeEncodeInt (- 129) = [127] \<and>
   LeDecodeToInt8 (LeEncodeInt (- 129)) = Inr 127 \<and>
   sint (127 :: int8) = 127"
  by (simp add: LeEncodeInt_def LeEncodeInt8_def LeDecodeToInt8_def)

section \<open>Width chosen by the unsigned sizer\<close>

lemma length_LeEncodeUint:
  "length (LeEncodeUint v) =
     (if uint v \<le> 255 then 1 else if uint v \<le> 65535 then 2
      else if uint v \<le> 4294967295 then 4 else 8)"
  by (simp add: LeEncodeUint_def LeEncodeUint8_def LeEncodeUint16_def LeEncodeUint32_def
      LeEncodeUint64_def length_PutUint16 length_PutUint32 length_PutUint64)

text \<open>
  C8. For native unsigned values \<open>v1 < v2\<close> the encoding of \<open>v1\<close> is at most as long as the
  encoding of \<open>v2\<close>; a value equal to the maximum of a width is encoded at that width
  (255 in one byte, 65535 in two, 4294967295 in four).
\<close>

theorem LeEncodeUint_width_monotone:
  assumes "v1 < v2"
  shows "length (LeEncodeUint v1) \<le> length (LeEncodeUint v2) \<and>
         length (LeEncodeUint 255) = 1 \<and> length (LeEncodeUint 65535) = 2 \<and>
         length (LeEncodeUint 4294967295) = 4"
proof -
  from assms have "uint v1 < uint v2"
    by (simp add: word_less_def)
  then have "length (LeEncodeUint v1) \<le> length (LeEncodeUint v2)"
    by (simp add: length_LeEncodeUint)
  moreover have "length (LeEncodeUint 255) = 1" "length (LeEncodeUint 65535) = 2"
    "length (LeEncodeUint 4294967295) = 4"
    by (simp_all add: length_LeEncodeUint)
  ultimately show ?thesis by simp
qed

theorem LeEncodeUint_width_monotone_witness:
  "(255 :: go_uint) < 256 \<and> length (LeEncodeUint 255) = 1 \<and> length (LeEncodeUint 256) = 2 \<and>
   length (LeEncodeUint 255) \<le> length (LeEncodeUint 256)"
proof -
  have h: "(255 :: go_uint) < 256" by simp
  have "length (LeEncodeUint 256) = 2" by (simp add: length_LeEncodeUint)
  with h LeEncodeUint_width_monotone [OF h] show ?thesis by simp
qed

section \<open>Lenient signed decoding of a short buffer\<close>

lemma bit_ucast_byte_high:
  "8 \<le> n \<Longrightarrow> \<not> bit (ucast (x :: byte) :: 64 word) n"
  by (auto simp: bit_simps dest: bit_imp_le_length)

lemma bit_push_byte_63:
  "k \<le> 48 \<Longrightarrow> \<not> bit (push_bit k (ucast (x :: byte)) :: 64 word) 63"
  by (auto simp: bit_simps dest: bit_imp_le_length)

lemma padded_last_zero:
  "length b < 8 \<Longrightarrow> take 8 (b @ replicate (8 - length b) 0) ! 7 = (0 :: byte)"
  by (simp add: nth_append)

lemma le_uint64_top_bit:
  "bit (le_uint64 c) 63 \<longleftrightarrow> bit (c ! 7) 7"
  unfolding le_uint64_def by (simp add: bit_or_iff bit_push_byte_63 bit_ucast_byte_high) (simp add: bit_simps)

lemma sint_le_uint64_nonneg:
  assumes "length b < 8"
  shows "0 \<le> sint (le_uint64 (take 8 (b @ replicate (8 - length b) 0)))"
proof -
  have "\<not> bit (le_uint64 (take 8 (b @ replicate (8 - length b) 0))) 63"
    unfolding le_uint64_top_bit by (simp only: padded_last_zero [OF assms]) simp
  then show ?thesis
    using bit_last_iff [of "le_uint64 (take 8 (b @ replicate (8 - length b) 0))"] by simp
qed

lemma short_decode_nonneg:
  assumes "length b < 8"
  shows "\<exists>v. LeDecodeToInt64 b = Inr v \<and> LeDecodeToInt b = Inr v \<and> 0 \<le> sint v"
  using sint_le_uint64_nonneg [OF assms]
  by (simp only: LeDecodeToInt64_eq LeDecodeToInt_eq) blast

text \<open>
  C9. For every buffer shorter than 8 bytes, \<open>LeDecodeToInt64\<close> and \<open>LeDecodeToInt\<close> return a
  value that is not negative, since the padding fills the high bytes with zeros. Hence a
  negative native integer that the sizer encoded in fewer than 8 bytes decodes through
  \<open>LeDecodeToInt\<close> to a non-negative number, not to itself.
\<close>

theorem lenient_signed_decode_zero_extends:
  assumes "length b < 8" and "sint i < 0" and "length (LeEncodeInt i) < 8"
  shows "(\<exists>v. LeDecodeToInt64 b = Inr v \<and> 0 \<le> sint v) \<and>
         (\<exists>v. LeDecodeToInt b = Inr v \<and> 0 \<le> sint v) \<and>
         (\<exists>v. LeDecodeToInt (LeEncodeInt i) = Inr v \<and> 0 \<le> sint v \<and> v \<noteq> i)"
proof -
  from short_decode_nonneg [OF assms(1)]
  have first: "(\<exists>v. LeDecodeToInt64 b = Inr v \<and> 0 \<le> sint v) \<and>
      (\<exists>v. LeDecodeToInt b = Inr v \<and> 0 \<le> sint v)"
    by blast
  from short_decode_nonneg [OF assms(3)]
  obtain v where v: "LeDecodeToInt (LeEncodeInt i) = Inr v" "0 \<le> sint v"
    by blast
  from v(2) assms(2) have "v \<noteq> i"
    by auto
  with v first show ?thesis
    by blast
qed

theorem lenient_signed_decode_zero_extends_witness:
  "length [255 :: byte] < 8 \<and> sint (- 1 :: go_int) < 0 \<and> length (LeEncodeInt (- 1)) < 8 \<and>
   (\<exists>v. LeDecodeToInt64 [255] = Inr v \<and> 0 \<le> sint v) \<and>
   (\<exists>v. LeDecodeToInt [255] = Inr v \<and> 0 \<le> sint v) \<and>
   (\<exists>v. LeDecodeToInt (LeEncodeInt (- 1)) = Inr v \<and> 0 \<le> sint v \<and> v \<noteq> - 1)"
proof -
  have h1: "length [255 :: byte] < 8"
    by simp
  have h2: "sint (- 1 :: go_int) < 0"
    by simp
  have h3: "length (LeEncodeInt (- 1)) < 8"
    by (simp add: LeEncodeInt_def LeEncodeInt8_def)
  from lenient_signed_decode_zero_extends [OF h1 h2 h3] h1 h2 h3 show ?thesis
    by blast
qed

section \<open>Early exit of the encoder at the absence sentinel\<close>

lemma LeEncode_loop_acc: "LeEncode_loop buf vals = buf @ LeEncode_loop [] vals"
proof (induction vals arbitrary: buf)
  case Nil
  show ?case by simp
next
  case (Cons x vals)
  show ?case
  proof (cases x)
    case None
    then show ?thesis by simp
  next
    case (Some v)
    have "LeEncode_loop buf (x # vals) = (buf @ encode_switch v) @ LeEncode_loop [] vals"
      using Cons.IH [of "buf @ encode_switch v"] Some by simp
    moreover have "LeEncode_loop [] (x # vals) = encode_switch v @ LeEncode_loop [] vals"
      using Cons.IH [of "[] @ encode_switch v"] Some by simp
    ultimately show ?thesis by simp
  qed
qed

lemma LeEncode_Nil: "LeEncode [] = []"
  by (simp add: LeEncode_def)

lemma LeEncode_None: "LeEncode (None # vals) = []"
  by (simp add: LeEncode_def)

lemma LeEncode_Some: "LeEncode (Some v # vals) = encode_switch v @ LeEncode vals"
  using LeEncode_loop_acc [of "encode_switch v" vals] by (simp add: LeEncode_def)

lemma LeEncode_stops_at_nil:
  "k < length vals \<Longrightarrow> vals ! k = None \<Longrightarrow> LeEncode vals = LeEncode (take k vals)"
proof (induction vals arbitrary: k)
  case Nil
  then show ?case by simp
next
  case (Cons x vals)
  show ?case
  proof (cases k)
    case 0
    with Cons.prems show ?thesis by (simp add: LeEncode_None LeEncode_Nil)
  next
    case (Suc j)
    with Cons.prems have j: "j < length vals" "vals ! j = None" by simp_all
    show ?thesis
    proof (cases x)
      case None
      then show ?thesis by (simp add: Suc LeEncode_None)
    next
      case (Some v)
      then show ?thesis using Cons.IH [OF j] by (simp add: Suc LeEncode_Some)
    qed
  qed
qed

lemma LeEncode_no_nil:
  "\<forall>j < length vals. vals ! j \<noteq> None \<Longrightarrow>
   LeEncode vals = concat (map (\<lambda>x. encode_switch (the x)) vals)"
proof (induction vals)
  case Nil
  show ?case by (simp add: LeEncode_Nil)
next
  case (Cons x vals)
  from Cons.prems have "x \<noteq> None" by auto
  then obtain v where x: "x = Some v" by auto
  from Cons.prems have "\<forall>j < length vals. vals ! j \<noteq> None" by auto
  from Cons.IH [OF this] show ?case by (simp add: x LeEncode_Some)
qed

text \<open>
  C4. When the value list holds the absence sentinel at position \<open>k\<close>, the encoder returns
  what it returns on the first \<open>k\<close> values alone, so the values at and after \<open>k\<close> add no
  byte; when no earlier position holds the sentinel, that is the concatenation of the
  encodings of the first \<open>k\<close> values in order.
\<close>

theorem LeEncode_early_exit:
  assumes "k < length vals" and "vals ! k = None"
  shows "LeEncode vals = LeEncode (take k vals) \<and>
         ((\<forall>j < k. vals ! j \<noteq> None) \<longrightarrow>
            LeEncode vals = concat (map (\<lambda>x. encode_switch (the x)) (take k vals)))"
proof -
  have stop: "LeEncode vals = LeEncode (take k vals)"
    using assms by (rule LeEncode_stops_at_nil)
  have "LeEncode (take k vals) = concat (map (\<lambda>x. encode_switch (the x)) (take k vals))"
    if "\<forall>j < k. vals ! j \<noteq> None"
  proof (rule LeEncode_no_nil)
    show "\<forall>j < length (take k vals). take k vals ! j \<noteq> None"
      using that by simp
  qed
  with stop show ?thesis by simp
qed

lemma LeEncodeUint32_7: "LeEncodeUint32 7 = [7, 0, 0, 0]"
  by (simp add: LeEncodeUint32_def PutUint32_bytes)

theorem LeEncode_early_exit_witness:
  "1 < length [Some (VUint32 7), None, Some (VUint32 9)] \<and>
   [Some (VUint32 7), None, Some (VUint32 9)] ! 1 = None \<and>
   LeEncode [Some (VUint32 7), None, Some (VUint32 9)] = LeEncode [Some (VUint32 7)] \<and>
   LeEncode [Some (VUint32 7), None, Some (VUint32 9)] = [7, 0, 0, 0]"
proof -
  have h1: "1 < length [Some (VUint32 7), None, Some (VUint32 9)]"
    by simp
  have h2: "[Some (VUint32 7), None, Some (VUint32 9)] ! 1 = None"
    by simp
  have h3: "\<forall>j < 1. [Some (VUint32 7), None, Some (VUint32 9)] ! j \<noteq> None"
    by simp
  note inst = LeEncode_early_exit [OF h1 h2]
  from inst have "LeEncode [Some (VUint32 7), None, Some (VUint32 9)] =
      LeEncode (take 1 [Some (VUint32 7), None, Some (VUint32 9)])"
    by blast
  then have e1: "LeEncode [Some (VUint32 7), None, Some (VUint32 9)] = LeEncode [Some (VUint32 7)]"
    by simp
  from inst h3
  have "LeEncode [Some (VUint32 7), None, Some (VUint32 9)] =
        concat (map (\<lambda>x. encode_switch (the x)) (take 1 [Some (VUint32 7), None, Some (VUint32 9)]))"
    by blast
  then have e2: "LeEncode [Some (VUint32 7), None, Some (VUint32 9)] = [7, 0, 0, 0]"
    by (simp add: LeEncodeUint32_7)
  from h1 h2 e1 e2 show ?thesis
    by blast
qed

section \<open>The length-normalising encoder\<close>

text \<open>
  C6. For every requested length \<open>N \<ge> 0\<close> and every value list, \<open>LeEncodeByLength\<close> returns
  without panic a buffer of exactly \<open>N\<close> bytes: the first \<open>N\<close> bytes of the plain encoding
  when that is longer than \<open>N\<close>, and the plain encoding followed by zero bytes when it is
  shorter.
\<close>

theorem LeEncodeByLength_normalises:
  assumes "0 \<le> N"
  shows "\<exists>r. LeEncodeByLength N vals = Inr r \<and> int (length r) = N \<and>
           (N < int (length (LeEncode vals)) \<longrightarrow> r = take (nat N) (LeEncode vals)) \<and>
           (int (length (LeEncode vals)) < N \<longrightarrow>
              r = LeEncode vals @ replicate (nat N - length (LeEncode vals)) 0)"
proof -
  consider (short) "int (length (LeEncode vals)) < N"
    | (long) "N < int (length (LeEncode vals))"
    | (exact) "int (length (LeEncode vals)) = N"
    by linarith
  then show ?thesis
  proof cases
    case short
    then have "LeEncodeByLength N vals =
        Inr (LeEncode vals @ replicate (nat (N - int (length (LeEncode vals)))) 0)"
      by (simp add: LeEncodeByLength_def Let_def)
    moreover have "nat (N - int (length (LeEncode vals))) = nat N - length (LeEncode vals)"
      by linarith
    ultimately show ?thesis using short by auto
  next
    case long
    with assms have "LeEncodeByLength N vals = Inr (take (nat N) (LeEncode vals))"
      by (simp add: LeEncodeByLength_def Let_def)
    then show ?thesis using long assms by auto
  next
    case exact
    then have "LeEncodeByLength N vals = Inr (LeEncode vals)"
      by (simp add: LeEncodeByLength_def Let_def)
    then show ?thesis using exact by auto
  qed
qed

lemma LeEncode_one_uint32: "LeEncode [Some (VUint32 7)] = [7, 0, 0, 0]"
  by (simp add: LeEncode_Some LeEncode_Nil LeEncodeUint32_7)

theorem LeEncodeByLength_normalises_witness:
  "(0 :: int) \<le> 3 \<and> 3 < int (length (LeEncode [Some (VUint32 7)])) \<and>
   LeEncodeByLength 3 [Some (VUint32 7)] = Inr [7, 0, 0] \<and>
   (0 :: int) \<le> 6 \<and> int (length (LeEncode [Some (VUint32 7)])) < 6 \<and>
   LeEncodeByLength 6 [Some (VUint32 7)] = Inr [7, 0, 0, 0, 0, 0]"
proof -
  have h3: "(0 :: int) \<le> 3" and h6: "(0 :: int) \<le> 6"
    by simp_all
  have long: "3 < int (length (LeEncode [Some (VUint32 7)]))"
    and short: "int (length (LeEncode [Some (VUint32 7)])) < 6"
    by (simp_all add: LeEncode_one_uint32)
  from LeEncodeByLength_normalises [OF h3, of "[Some (VUint32 7)]"] long
  have "LeEncodeByLength 3 [Some (VUint32 7)] = Inr (take (nat 3) (LeEncode [Some (VUint32 7)]))"
    by auto
  then have r3: "LeEncodeByLength 3 [Some (VUint32 7)] = Inr [7, 0, 0]"
    by (simp add: LeEncode_one_uint32 numeral_eq_Suc)
  from LeEncodeByLength_normalises [OF h6, of "[Some (VUint32 7)]"] short
  have "LeEncodeByLength 6 [Some (VUint32 7)] =
      Inr (LeEncode [Some (VUint32 7)] @ replicate (nat 6 - length (LeEncode [Some (VUint32 7)])) 0)"
    by auto
  then have r6: "LeEncodeByLength 6 [Some (VUint32 7)] = Inr [7, 0, 0, 0, 0, 0]"
    by (simp add: LeEncode_one_uint32 numeral_eq_Suc)
  from h3 h6 long short r3 r6 show ?thesis
    by blast
qed

section \<open>The strict decoder on a short buffer\<close>

lemma LeDecode_loop_Cons_short:
  "length b < slot_size s \<Longrightarrow>
   LeDecode_loop b (s # vals) =
     (Some (Wrap (if b = [] then EOF else ErrUnexpectedEOF) ''binary.Read failed''), s # vals)"
  by (simp add: binary_Read_def Let_def)

lemma LeDecode_loop_Cons_ok:
  "\<not> length b < slot_size s \<Longrightarrow>
   LeDecode_loop b (s # vals) =
     (fst (LeDecode_loop (drop (slot_size s) b) vals),
      decode_slot (take (slot_size s) b) s # snd (LeDecode_loop (drop (slot_size s) b) vals))"
  by (simp add: binary_Read_def Let_def split: prod.splits)

lemma length_LeDecode_loop: "length (snd (LeDecode_loop b vals)) = length vals"
proof (induction vals arbitrary: b)
  case Nil
  show ?case by simp
next
  case (Cons s vals)
  show ?case
  proof (cases "length b < slot_size s")
    case True
    then show ?thesis by (simp add: LeDecode_loop_Cons_short del: LeDecode_loop.simps)
  next
    case False
    then show ?thesis by (simp add: LeDecode_loop_Cons_ok Cons.IH del: LeDecode_loop.simps)
  qed
qed

lemma LeDecode_loop_short:
  "length b < sum_list (map slot_size vals) \<Longrightarrow>
   \<exists>k. k < length vals \<and>
       sum_list (map slot_size (take k vals)) \<le> length b \<and>
       length b < sum_list (map slot_size (take (Suc k) vals)) \<and>
       fst (LeDecode_loop b vals) =
         Some (Wrap (if length b = sum_list (map slot_size (take k vals)) then EOF
                     else ErrUnexpectedEOF) ''binary.Read failed'') \<and>
       (\<forall>j < k. snd (LeDecode_loop b vals) ! j =
          decode_slot (take (slot_size (vals ! j))
            (drop (sum_list (map slot_size (take j vals))) b)) (vals ! j)) \<and>
       (\<forall>j. k \<le> j \<and> j < length vals \<longrightarrow> snd (LeDecode_loop b vals) ! j = vals ! j)"
proof (induction vals arbitrary: b)
  case Nil
  then show ?case by simp
next
  case (Cons s vals)
  show ?case
  proof (cases "length b < slot_size s")
    case True
    then have res: "LeDecode_loop b (s # vals) =
        (Some (Wrap (if b = [] then EOF else ErrUnexpectedEOF) ''binary.Read failed''), s # vals)"
      by (rule LeDecode_loop_Cons_short)
    show ?thesis
      apply (rule exI [of _ 0])
      using True by (auto simp: res simp del: LeDecode_loop.simps)
  next
    case False
    then have res: "LeDecode_loop b (s # vals) =
        (fst (LeDecode_loop (drop (slot_size s) b) vals),
         decode_slot (take (slot_size s) b) s # snd (LeDecode_loop (drop (slot_size s) b) vals))"
      by (rule LeDecode_loop_Cons_ok)
    from False Cons.prems
    have "length (drop (slot_size s) b) < sum_list (map slot_size vals)"
      by simp
    from Cons.IH [OF this] obtain k where k: "k < length vals"
      "sum_list (map slot_size (take k vals)) \<le> length (drop (slot_size s) b)"
      "length (drop (slot_size s) b) < sum_list (map slot_size (take (Suc k) vals))"
      "fst (LeDecode_loop (drop (slot_size s) b) vals) =
         Some (Wrap (if length (drop (slot_size s) b) = sum_list (map slot_size (take k vals))
                     then EOF else ErrUnexpectedEOF) ''binary.Read failed'')"
      "\<forall>j < k. snd (LeDecode_loop (drop (slot_size s) b) vals) ! j =
          decode_slot (take (slot_size (vals ! j))
            (drop (sum_list (map slot_size (take j vals))) (drop (slot_size s) b))) (vals ! j)"
      "\<forall>j. k \<le> j \<and> j < length vals \<longrightarrow>
          snd (LeDecode_loop (drop (slot_size s) b) vals) ! j = vals ! j"
      by blast
    have pre: "\<forall>j < Suc k. snd (LeDecode_loop b (s # vals)) ! j =
          decode_slot (take (slot_size ((s # vals) ! j))
            (drop (sum_list (map slot_size (take j (s # vals)))) b)) ((s # vals) ! j)"
    proof (intro allI impI)
      fix j assume "j < Suc k"
      show "snd (LeDecode_loop b (s # vals)) ! j =
          decode_slot (take (slot_size ((s # vals) ! j))
            (drop (sum_list (map slot_size (take j (s # vals)))) b)) ((s # vals) ! j)"
      proof (cases j)
        case 0
        then show ?thesis by (simp add: res del: LeDecode_loop.simps)
      next
        case (Suc i)
        with \<open>j < Suc k\<close> have "i < k" by simp
        with k(5) show ?thesis by (simp add: res Suc add.commute del: LeDecode_loop.simps)
      qed
    qed
    have post: "\<forall>j. Suc k \<le> j \<and> j < length (s # vals) \<longrightarrow>
          snd (LeDecode_loop b (s # vals)) ! j = (s # vals) ! j"
    proof (intro allI impI)
      fix j assume j: "Suc k \<le> j \<and> j < length (s # vals)"
      then obtain i where i: "j = Suc i" by (cases j) auto
      with j k(6) show "snd (LeDecode_loop b (s # vals)) ! j = (s # vals) ! j"
        by (simp add: res del: LeDecode_loop.simps)
    qed
    show ?thesis
      apply (rule exI [of _ "Suc k"])
      using k(1-4) False pre post by (auto simp: res simp del: LeDecode_loop.simps)
  qed
qed

lemma LeDecode_loop_enough:
  "sum_list (map slot_size vals) \<le> length b \<Longrightarrow> fst (LeDecode_loop b vals) = None"
proof (induction vals arbitrary: b)
  case Nil
  show ?case by simp
next
  case (Cons s vals)
  then have fits: "\<not> length b < slot_size s"
    and rest: "sum_list (map slot_size vals) \<le> length (drop (slot_size s) b)"
    by simp_all
  from Cons.IH [OF rest] show ?case
    by (simp add: LeDecode_loop_Cons_ok [OF fits] del: LeDecode_loop.simps)
qed

text \<open>
  C3, amended. When the buffer is shorter than the widths of the destinations
  together, \<open>LeDecode\<close> returns an error that wraps \<open>io.EOF\<close> or \<open>io.ErrUnexpectedEOF\<close> under
  the text \<open>binary.Read failed\<close>. With \<open>k\<close> the first destination whose width the buffer
  cannot supply, the \<open>k\<close> destinations before it hold the values decoded from their byte
  ranges, and destination \<open>k\<close> and all later ones are left as they were.
\<close>

theorem LeDecode_short_buffer:
  assumes "length b < sum_list (map slot_size vals)"
  shows "\<exists>k. k < length vals \<and>
       sum_list (map slot_size (take k vals)) \<le> length b \<and>
       length b < sum_list (map slot_size (take (Suc k) vals)) \<and>
       fst (LeDecode b vals) =
         Some (Wrap (if length b = sum_list (map slot_size (take k vals)) then EOF
                     else ErrUnexpectedEOF) ''binary.Read failed'') \<and>
       length (snd (LeDecode b vals)) = length vals \<and>
       (\<forall>j < k. snd (LeDecode b vals) ! j =
          decode_slot (take (slot_size (vals ! j))
            (drop (sum_list (map slot_size (take j vals))) b)) (vals ! j)) \<and>
       (\<forall>j. k \<le> j \<and> j < length vals \<longrightarrow> snd (LeDecode b vals) ! j = vals ! j)"
  using LeDecode_loop_short [OF assms] length_LeDecode_loop [of b vals]
  unfolding LeDecode_def by blast

lemma le_uint32_one: "le_uint32 [1, 0, 0, 0] = 1"
  by (simp add: le_uint32_def nth_numeral)

theorem LeDecode_short_buffer_witness:
  "length [1, 0, 0, 0, 5 :: byte] < sum_list (map slot_size [PUint32 0, PUint32 0]) \<and>
   fst (LeDecode [1, 0, 0, 0, 5] [PUint32 0, PUint32 0]) =
     Some (Wrap ErrUnexpectedEOF ''binary.Read failed'') \<and>
   length (snd (LeDecode [1, 0, 0, 0, 5] [PUint32 0, PUint32 0])) = 2 \<and>
   snd (LeDecode [1, 0, 0, 0, 5] [PUint32 0, PUint32 0]) ! 0 = PUint32 1 \<and>
   snd (LeDecode [1, 0, 0, 0, 5] [PUint32 0, PUint32 0]) ! 1 = PUint32 0"
proof -
  let ?b = "[1, 0, 0, 0, 5 :: byte]"
  let ?vs = "[PUint32 0, PUint32 0]"
  have h: "length ?b < sum_list (map slot_size ?vs)"
    by simp
  from LeDecode_short_buffer [OF h] obtain k where k: "k < length ?vs"
    "sum_list (map slot_size (take k ?vs)) \<le> length ?b"
    "length ?b < sum_list (map slot_size (take (Suc k) ?vs))"
    "fst (LeDecode ?b ?vs) =
       Some (Wrap (if length ?b = sum_list (map slot_size (take k ?vs)) then EOF
                   else ErrUnexpectedEOF) ''binary.Read failed'')"
    "length (snd (LeDecode ?b ?vs)) = length ?vs"
    "\<forall>j < k. snd (LeDecode ?b ?vs) ! j =
        decode_slot (take (slot_size (?vs ! j))
          (drop (sum_list (map slot_size (take j ?vs))) ?b)) (?vs ! j)"
    "\<forall>j. k \<le> j \<and> j < length ?vs \<longrightarrow> snd (LeDecode ?b ?vs) ! j = ?vs ! j"
    by blast
  from k(1) have "k = 0 \<or> k = 1"
    by auto
  moreover have "k \<noteq> 0"
  proof
    assume "k = 0"
    with k(3) show False by simp
  qed
  ultimately have k1: "k = 1"
    by simp
  from k(4) have err: "fst (LeDecode ?b ?vs) = Some (Wrap ErrUnexpectedEOF ''binary.Read failed'')"
    by (simp add: k1)
  from k(5) have len: "length (snd (LeDecode ?b ?vs)) = 2"
    by simp
  from k(6) have "snd (LeDecode ?b ?vs) ! 0 =
      decode_slot (take (slot_size (?vs ! 0)) (drop (sum_list (map slot_size (take 0 ?vs))) ?b)) (?vs ! 0)"
    unfolding k1 by blast
  then have first: "snd (LeDecode ?b ?vs) ! 0 = PUint32 1"
    by (simp add: le_uint32_one)
  from k(7) have "snd (LeDecode ?b ?vs) ! 1 = ?vs ! 1"
    unfolding k1 by simp
  then have second: "snd (LeDecode ?b ?vs) ! 1 = PUint32 0"
    by simp
  from h err len first second show ?thesis
    by blast
qed

theorem LeDecode_populates_before_failing_counterexample:
  "fst (LeDecode [1, 0, 0, 0, 5] [PUint32 0, PUint32 0]) =
     Some (Wrap ErrUnexpectedEOF ''binary.Read failed'') \<and>
   snd (LeDecode [1, 0, 0, 0, 5] [PUint32 0, PUint32 0]) = [PUint32 1, PUint32 0] \<and>
   snd (LeDecode [1, 0, 0, 0, 5] [PUint32 0, PUint32 0]) \<noteq> [PUint32 0, PUint32 0]"
  by (simp add: LeDecode_def binary_Read_def Let_def le_uint32_one)

end
